theory Spec2Isabelle
  imports Main "HOL-Library.Char_ord" "HOL-Library.List_Lexorder"
begin

section \<open>Strings\<close>

text \<open>
  A Python \<open>str\<close> is a sequence of code points. The model uses \<^typ>\<open>string\<close>, so it covers
  the code points below 256; \<^typ>\<open>char\<close> is read as such a code point and
  \<^term>\<open>length\<close> counts code points, as Python's \<open>len\<close> does. Strings are compared as
  Python compares them: lexicographically by code point.
\<close>

definition LF :: char where
  "LF = CHR 0x0A"

definition CR :: char where
  "CR = CHR 0x0D"

definition code :: "char \<Rightarrow> nat" where
  "code c = of_char c"

text \<open>\<open>str.isspace\<close> on one code point below 256.\<close>

definition isspace :: "char \<Rightarrow> bool" where
  "isspace c =
     (let n = code c
      in (9 \<le> n \<and> n \<le> 13) \<or> (28 \<le> n \<and> n \<le> 32) \<or> n = 133 \<or> n = 160)"

text \<open>\<open>str.strip()\<close>: leading and trailing whitespace removed.\<close>

definition strip :: "string \<Rightarrow> string" where
  "strip s = rev (dropWhile isspace (rev (dropWhile isspace s)))"

text \<open>
  \<open>str.lower()\<close>: below 256 the cased capitals are A-Z and the Latin-1 capitals
  0xC0-0xDE without the multiplication sign 0xD7; each maps 32 code points up.
\<close>

definition lower_char :: "char \<Rightarrow> char" where
  "lower_char c =
     (let n = code c
      in if (65 \<le> n \<and> n \<le> 90) \<or> (192 \<le> n \<and> n \<le> 222 \<and> n \<noteq> 215)
         then char_of (n + 32) else c)"

definition lower :: "string \<Rightarrow> string" where
  "lower s = map lower_char s"

text \<open>\<open>sep.join(xs)\<close>.\<close>

fun join :: "string \<Rightarrow> string list \<Rightarrow> string" where
  "join sep [] = []"
| "join sep [x] = x"
| "join sep (x # y # ys) = x @ sep @ join sep (y # ys)"

text \<open>\<open>str(n)\<close> for a length: decimal digits.\<close>

definition digit_char :: "nat \<Rightarrow> char" where
  "digit_char d = char_of (48 + d)"

fun str_nat :: "nat \<Rightarrow> string" where
  "str_nat n = (if n < 10 then [digit_char n] else str_nat (n div 10) @ [digit_char (n mod 10)])"

declare str_nat.simps [simp del]

section \<open>Regular expressions\<close>

text \<open>
  The fragment of Python's \<open>re\<close> syntax that \<open>validate_email\<close> uses: character classes,
  a literal character, concatenation, \<open>+\<close> and \<open>{2,}\<close>. The pattern has no groups and the
  caller only asks whether a match exists, so a matcher by derivatives decides the same
  question as \<open>re\<close>'s backtracking search.
\<close>

datatype rexp =
    Zero
  | One
  | Cls "char \<Rightarrow> bool"
  | Alt rexp rexp
  | Times rexp rexp
  | Star rexp

definition Plus :: "rexp \<Rightarrow> rexp" where
  "Plus r = Times r (Star r)"

definition AtLeast2 :: "rexp \<Rightarrow> rexp" where
  "AtLeast2 r = Times r (Times r (Star r))"

definition Lit :: "char \<Rightarrow> rexp" where
  "Lit a = Cls (\<lambda>c. c = a)"

fun nullable :: "rexp \<Rightarrow> bool" where
  "nullable Zero = False"
| "nullable One = True"
| "nullable (Cls p) = False"
| "nullable (Alt r s) = (nullable r \<or> nullable s)"
| "nullable (Times r s) = (nullable r \<and> nullable s)"
| "nullable (Star r) = True"

fun deriv :: "char \<Rightarrow> rexp \<Rightarrow> rexp" where
  "deriv c Zero = Zero"
| "deriv c One = Zero"
| "deriv c (Cls p) = (if p c then One else Zero)"
| "deriv c (Alt r s) = Alt (deriv c r) (deriv c s)"
| "deriv c (Times r s) =
     (if nullable r then Alt (Times (deriv c r) s) (deriv c s) else Times (deriv c r) s)"
| "deriv c (Star r) = Times (deriv c r) (Star r)"

text \<open>\<open>fullmatch r s\<close>: the whole of \<open>s\<close> is a word of \<open>r\<close>.\<close>

fun fullmatch :: "rexp \<Rightarrow> string \<Rightarrow> bool" where
  "fullmatch r [] = nullable r"
| "fullmatch r (c # cs) = fullmatch (deriv c r) cs"

text \<open>
  \<open>re.match('^' + body + '$', s)\<close> without flags: \<open>^\<close> holds at the start, where
  \<open>re.match\<close> begins anyway; \<open>$\<close> holds at the end of the string and also just before
  a newline that is the last character of the string.
\<close>

definition re_match_to_dollar :: "rexp \<Rightarrow> string \<Rightarrow> bool" where
  "re_match_to_dollar body s =
     (fullmatch body s \<or> (s \<noteq> [] \<and> last s = LF \<and> fullmatch body (butlast s)))"

section \<open>The recipient store\<close>

subsection \<open>\<open>validate_email\<close>\<close>

definition in_range :: "char \<Rightarrow> char \<Rightarrow> char \<Rightarrow> bool" where
  "in_range lo hi c = (code lo \<le> code c \<and> code c \<le> code hi)"

text \<open>\<open>[a-zA-Z0-9._%+-]\<close>\<close>

definition local_char :: "char \<Rightarrow> bool" where
  "local_char c =
     (in_range CHR ''a'' CHR ''z'' c \<or> in_range CHR ''A'' CHR ''Z'' c \<or>
      in_range CHR ''0'' CHR ''9'' c \<or> c = CHR ''.'' \<or> c = CHR ''_'' \<or> c = CHR ''%'' \<or>
      c = CHR ''+'' \<or> c = CHR ''-'')"

text \<open>\<open>[a-zA-Z0-9.-]\<close>\<close>

definition domain_char :: "char \<Rightarrow> bool" where
  "domain_char c =
     (in_range CHR ''a'' CHR ''z'' c \<or> in_range CHR ''A'' CHR ''Z'' c \<or>
      in_range CHR ''0'' CHR ''9'' c \<or> c = CHR ''.'' \<or> c = CHR ''-'')"

text \<open>\<open>[a-zA-Z]\<close>\<close>

definition alpha_char :: "char \<Rightarrow> bool" where
  "alpha_char c = (in_range CHR ''a'' CHR ''z'' c \<or> in_range CHR ''A'' CHR ''Z'' c)"

text \<open>The pattern between \<open>^\<close> and \<open>$\<close>: \<open>[a-zA-Z0-9._%+-]+@[a-zA-Z0-9.-]+\.[a-zA-Z]{2,}\<close>\<close>

definition email_body :: rexp where
  "email_body =
     Times (Plus (Cls local_char))
       (Times (Lit CHR ''@'')
          (Times (Plus (Cls domain_char))
             (Times (Lit CHR ''.'') (AtLeast2 (Cls alpha_char)))))"

definition validate_email :: "string \<Rightarrow> bool" where
  "validate_email email = re_match_to_dollar email_body email"

subsection \<open>The backing file\<close>

text \<open>
  The state of the file at \<open>CLIENT_FILE\<close>, as the program can observe it:
  \<open>present\<close> is the answer of \<open>os.path.exists\<close>; \<open>readable\<close> says whether opening it
  for reading and decoding it succeed; \<open>writable\<close> says whether opening it for writing
  and writing succeed (this may create the file); \<open>content\<close> is its text. The program
  never changes permissions, so a write changes \<open>present\<close> and \<open>content\<close> only. A failed
  write is taken to fail on \<open>open\<close>, leaving the file as it was. The text is stored as
  it is written (the line separator of the platform is \<open>\n\<close>), and always in UTF-8, so
  two files with the same text have the same bytes.
\<close>

record client_file =
  present :: bool
  readable :: bool
  writable :: bool
  content :: string

datatype py_exception =
    OSError string
  | ValueError string
  | TypeError string
  | SMTPAuthenticationError string
  | SMTPException string
  | OtherException string

text \<open>\<open>str(e)\<close>\<close>

fun str_exc :: "py_exception \<Rightarrow> string" where
  "str_exc (OSError m) = m"
| "str_exc (ValueError m) = m"
| "str_exc (TypeError m) = m"
| "str_exc (SMTPAuthenticationError m) = m"
| "str_exc (SMTPException m) = m"
| "str_exc (OtherException m) = m"

text \<open>
  Reading in text mode translates \<open>\r\n\<close> and a lone \<open>\r\<close> to \<open>\n\<close>; the flag says that
  the previous character was a \<open>\r\<close>.
\<close>

fun universal_newlines :: "bool \<Rightarrow> string \<Rightarrow> string" where
  "universal_newlines pending_cr [] = []"
| "universal_newlines pending_cr (c # cs) =
     (if c = CR then LF # universal_newlines True cs
      else if c = LF \<and> pending_cr then universal_newlines False cs
      else c # universal_newlines False cs)"

text \<open>
  \<open>readlines\<close> cuts the text after every \<open>\n\<close>; each line keeps its \<open>\n\<close>, and a last
  line without one is returned too. \<open>cur\<close> is the line read so far.
\<close>

fun split_lines :: "string \<Rightarrow> string \<Rightarrow> string list" where
  "split_lines cur [] = (if cur = [] then [] else [cur])"
| "split_lines cur (c # cs) =
     (if c = LF then (cur @ [c]) # split_lines [] cs else split_lines (cur @ [c]) cs)"

definition text_lines :: "string \<Rightarrow> string list" where
  "text_lines t = split_lines [] (universal_newlines False t)"

definition readlines :: "client_file \<Rightarrow> py_exception + string list" where
  "readlines f =
     (if readable f then Inr (text_lines (content f)) else Inl (OSError ''cannot read''))"

definition write_text :: "string \<Rightarrow> client_file \<Rightarrow> py_exception + client_file" where
  "write_text t f =
     (if writable f then Inr (f\<lparr>present := True, content := t\<rparr>)
      else Inl (OSError ''cannot write''))"

subsection \<open>\<open>get_recipients\<close>\<close>

definition get_recipients :: "client_file \<Rightarrow> string list" where
  "get_recipients f =
     (if \<not> present f then []
      else case readlines f of
        Inr ls \<Rightarrow>
          (let recipients = map strip (filter (\<lambda>line. strip line \<noteq> []) ls)
           in filter validate_email recipients)
      | Inl e \<Rightarrow> [])"

subsection \<open>\<open>save_recipients\<close>\<close>

text \<open>
  \<open>list(dict.fromkeys(xs))\<close>: the keys of a dict in insertion order; a key that is
  already there (equal as a string) is not inserted again.
\<close>

fun fromkeys_into :: "'a list \<Rightarrow> 'a list \<Rightarrow> 'a list" where
  "fromkeys_into keys [] = keys"
| "fromkeys_into keys (x # xs) =
     fromkeys_into (if x \<in> set keys then keys else keys @ [x]) xs"

definition fromkeys :: "'a list \<Rightarrow> 'a list" where
  "fromkeys xs = fromkeys_into [] xs"

text \<open>\<open>list.sort(key=str.lower)\<close> is stable, as \<^const>\<open>sort_key\<close> is.\<close>

definition unique_emails :: "string list \<Rightarrow> string list" where
  "unique_emails recipients = sort_key lower (fromkeys recipients)"

definition save_recipients :: "string list \<Rightarrow> client_file \<Rightarrow> bool \<times> client_file" where
  "save_recipients recipients f =
     (case write_text (join [LF] (unique_emails recipients)) f of
        Inr f' \<Rightarrow> (True, f')
      | Inl e \<Rightarrow> (False, f))"

text \<open>\<open>save_recipients(get_recipients())\<close>, as a change of the file.\<close>

definition resave :: "client_file \<Rightarrow> client_file" where
  "resave f = snd (save_recipients (get_recipients f) f)"

section \<open>The alert dispatcher\<close>

record config =
  SENDER_EMAIL :: string
  SENDER_PASSWORD :: string

record email_message =
  msg_subject :: string
  msg_from :: string
  msg_to :: string
  msg_content :: string

datatype smtp_event =
    Connect string nat
  | Login string string
  | SendMessage email_message
  | Quit

text \<open>
  The mail server, as far as one session sees it: what connecting, logging in and sending
  raise, if anything.
\<close>

record smtp_server =
  on_connect :: "py_exception option"
  on_login :: "py_exception option"
  on_send :: "py_exception option"

text \<open>
  \<open>with smtplib.SMTP_SSL('smtp.gmail.com', 465) as smtp: smtp.login(...);
  smtp.send_message(msg)\<close>: the result and the actions on the network, in order.
\<close>

definition smtp_session ::
  "config \<Rightarrow> email_message \<Rightarrow> smtp_server \<Rightarrow> (py_exception + unit) \<times> smtp_event list" where
  "smtp_session cfg msg srv =
     (case on_connect srv of
        Some e \<Rightarrow> (Inl e, [Connect ''smtp.gmail.com'' 465])
      | None \<Rightarrow>
          (case on_login srv of
             Some e \<Rightarrow>
               (Inl e, [Connect ''smtp.gmail.com'' 465,
                        Login (SENDER_EMAIL cfg) (SENDER_PASSWORD cfg), Quit])
           | None \<Rightarrow>
               (case on_send srv of
                  Some e \<Rightarrow>
                    (Inl e, [Connect ''smtp.gmail.com'' 465,
                             Login (SENDER_EMAIL cfg) (SENDER_PASSWORD cfg),
                             SendMessage msg, Quit])
                | None \<Rightarrow>
                    (Inr (), [Connect ''smtp.gmail.com'' 465,
                              Login (SENDER_EMAIL cfg) (SENDER_PASSWORD cfg),
                              SendMessage msg, Quit]))))"

text \<open>\<open>f"System Alert: {message[:50]}{'...' if len(message) > 50 else ''}"\<close>\<close>

definition subject_of :: "string \<Rightarrow> string" where
  "subject_of message =
     ''System Alert: '' @ take 50 message @ (if length message > 50 then ''...'' else [])"

text \<open>
  \<open>msg[name] = value\<close> on an \<open>EmailMessage\<close> is the work of Python's \<open>email\<close> package,
  which is not part of this program: it refuses some values with an exception (a value of
  more than one line, an address list it cannot build) and parses the others, and the
  message then carries what was parsed, which need not be the value assigned (an RFC 2047
  encoded word in a \<open>Subject\<close> is decoded, a malformed address is rewritten). The model
  takes this as given: \<open>store_header lib name value\<close> is the exception raised, or the
  value that the message carries for this header from then on and that goes out.
\<close>

record mail_library =
  store_header :: "string \<Rightarrow> string \<Rightarrow> py_exception + string"

text \<open>
  The four statements that fill \<open>msg\<close>, in their order: \<open>Subject\<close>, \<open>From\<close>, \<open>To\<close>, content.
  The first one that raises ends the construction.
\<close>

definition build_message ::
  "config \<Rightarrow> mail_library \<Rightarrow> string list \<Rightarrow> string \<Rightarrow> py_exception + email_message" where
  "build_message cfg lib recipients message =
     (case store_header lib ''Subject'' (subject_of message) of
        Inl e \<Rightarrow> Inl e
      | Inr subj \<Rightarrow>
          (case store_header lib ''From'' (SENDER_EMAIL cfg) of
             Inl e \<Rightarrow> Inl e
           | Inr sender \<Rightarrow>
               (case store_header lib ''To'' (join '', '' recipients) of
                  Inl e \<Rightarrow> Inl e
                | Inr rcpts \<Rightarrow>
                    Inr \<lparr>msg_subject = subj, msg_from = sender, msg_to = rcpts,
                         msg_content = ''System Alert Notification:'' @ [LF, LF] @ message\<rparr>)))"

text \<open>The \<open>except\<close> clauses of \<open>send_email_to_all\<close>, in their order.\<close>

fun reraise :: "py_exception \<Rightarrow> py_exception" where
  "reraise (SMTPAuthenticationError m) =
     ValueError ''Email authentication failed. Please check your Gmail App Password.''"
| "reraise (SMTPException m) = ValueError (''SMTP error occurred: '' @ m)"
| "reraise e = ValueError (''Unexpected error sending email: '' @ str_exc e)"

text \<open>
  Filling \<open>msg\<close> happens before the \<open>try\<close>, so what it raises leaves the function as it
  is; what the session raises is raised again as a \<open>ValueError\<close>.
\<close>

definition send_email_to_all ::
  "config \<Rightarrow> mail_library \<Rightarrow> string \<Rightarrow> client_file \<Rightarrow> smtp_server \<Rightarrow>
     (py_exception + unit) \<times> smtp_event list" where
  "send_email_to_all cfg lib message f srv =
     (let recipients = get_recipients f
      in if recipients = []
         then (Inl (ValueError ''No recipients configured. Please add recipients first.''), [])
         else (case build_message cfg lib recipients message of
                 Inl e \<Rightarrow> (Inl e, [])
               | Inr msg \<Rightarrow>
                   (case smtp_session cfg msg srv of
                      (Inl e, evs) \<Rightarrow> (Inl (reraise e), evs)
                    | (Inr u, evs) \<Rightarrow> (Inr u, evs))))"

section \<open>The request handlers\<close>

text \<open>A flashed message and its category.\<close>

type_synonym flash = "string \<times> string"

text \<open>
  \<open>trigger_email\<close>: \<open>raw\<close> is the form field \<open>error\<close> (empty when the field is missing).
  The result is what was flashed and what happened on the network.
\<close>

definition trigger_email ::
  "config \<Rightarrow> mail_library \<Rightarrow> string \<Rightarrow> client_file \<Rightarrow> smtp_server \<Rightarrow>
     flash list \<times> smtp_event list" where
  "trigger_email cfg lib raw f srv =
     (let message = strip raw
      in if message = [] then ([(''Error: Message cannot be empty.'', ''error'')], [])
         else if length message > 5000
         then ([(''Error: Message is too long (max 5000 characters).'', ''error'')], [])
         else
           (let recipients = get_recipients f
            in if recipients = []
               then ([(''Error: No recipients configured. Please add recipients first.'',
                       ''error'')], [])
               else (case send_email_to_all cfg lib message f srv of
                       (Inr u, evs) \<Rightarrow>
                         ([(''Alert sent successfully to '' @ str_nat (length recipients) @
                            '' recipient(s)!'', ''success'')], evs)
                     | (Inl e, evs) \<Rightarrow>
                         ([(''Failed to send email: '' @ str_exc e, ''error'')], evs))))"

text \<open>
  \<open>update_clients\<close>: \<open>new_raw\<close> and \<open>remove_raw\<close> are the form fields \<open>new_email\<close> and
  \<open>remove_email\<close> (empty when missing). The three steps of the handler follow; each takes
  and returns the list, what was flashed so far and the \<open>changed\<close> flag.
\<close>

type_synonym update_state = "string list \<times> flash list \<times> bool"

definition add_step :: "string \<Rightarrow> update_state \<Rightarrow> update_state" where
  "add_step new_email st =
     (case st of (current_emails, flashes, changed) \<Rightarrow>
        if new_email \<noteq> [] then
          (if \<not> validate_email new_email
           then (current_emails,
                 flashes @ [(''Invalid email format: '' @ new_email, ''error'')], changed)
           else if lower new_email \<in> set (map lower current_emails)
           then (current_emails,
                 flashes @ [(new_email @ '' is already in the recipient list.'', ''error'')],
                 changed)
           else (current_emails @ [new_email],
                 flashes @ [(''Added '' @ new_email @ '' to the recipient list.'', ''success'')],
                 True))
        else st)"

definition remove_step :: "string \<Rightarrow> update_state \<Rightarrow> update_state" where
  "remove_step remove_email st =
     (case st of (current_emails, flashes, changed) \<Rightarrow>
        if remove_email \<noteq> [] then
          (let original_count = length current_emails;
               current_emails' = filter (\<lambda>email. lower email \<noteq> remove_email) current_emails
           in if length current_emails' < original_count
              then (current_emails',
                    flashes @ [(''Removed '' @ remove_email @ '' from the recipient list.'',
                                ''success'')], True)
              else (current_emails',
                    flashes @ [(remove_email @ '' was not found in the recipient list.'',
                                ''error'')], changed))
        else st)"

definition save_step :: "update_state \<Rightarrow> client_file \<Rightarrow> flash list \<times> client_file" where
  "save_step st f =
     (case st of (current_emails, flashes, changed) \<Rightarrow>
        if changed then
          (case save_recipients current_emails f of
             (True, f') \<Rightarrow> (flashes, f')
           | (False, f') \<Rightarrow>
               (flashes @ [(''Error saving recipient list. Please try again.'', ''error'')], f'))
        else (flashes, f))"

definition update_clients :: "string \<Rightarrow> string \<Rightarrow> client_file \<Rightarrow> flash list \<times> client_file" where
  "update_clients new_raw remove_raw f =
     (let new_email = lower (strip new_raw);
          remove_email = lower (strip remove_raw);
          current_emails = get_recipients f
      in save_step (remove_step remove_email (add_step new_email (current_emails, [], False))) f)"

section \<open>The pattern as the specification words it\<close>

text \<open>
  A full match of the whole string: a local part of one or more of \<open>[A-Za-z0-9._%+-]\<close>,
  \<open>@\<close>, a domain of one or more of \<open>[A-Za-z0-9.-]\<close>, a dot, and a top-level label
  of two or more letters. This definition follows the specification, not the code; the code
  is \<^const>\<open>validate_email\<close>.
\<close>

definition pattern_full_match :: "string \<Rightarrow> bool" where
  "pattern_full_match s =
     (\<exists>local_part domain_part tld.
        s = local_part @ ''@'' @ domain_part @ ''.'' @ tld \<and>
        local_part \<noteq> [] \<and> list_all local_char local_part \<and>
        domain_part \<noteq> [] \<and> list_all domain_char domain_part \<and>
        2 \<le> length tld \<and> list_all alpha_char tld)"

section \<open>Notions used in the proofs\<close>

text \<open>The words of an expression: the set of strings it matches in full.\<close>

definition conc :: "string set \<Rightarrow> string set \<Rightarrow> string set" where
  "conc A B = {u @ v | u v. u \<in> A \<and> v \<in> B}"

inductive_set star :: "string set \<Rightarrow> string set" for A :: "string set" where
  star_empty: "[] \<in> star A"
| star_more: "u \<in> A \<Longrightarrow> v \<in> star A \<Longrightarrow> u @ v \<in> star A"

fun lang :: "rexp \<Rightarrow> string set" where
  "lang Zero = {}"
| "lang One = {[]}"
| "lang (Cls p) = {[c] | c. p c}"
| "lang (Alt r s) = lang r \<union> lang s"
| "lang (Times r s) = conc (lang r) (lang s)"
| "lang (Star r) = star (lang r)"

text \<open>The characters that can occur in a word of an expression.\<close>

fun alphabet :: "rexp \<Rightarrow> char \<Rightarrow> bool" where
  "alphabet Zero c = False"
| "alphabet One c = False"
| "alphabet (Cls p) c = p c"
| "alphabet (Alt r s) c = (alphabet r c \<or> alphabet s c)"
| "alphabet (Times r s) c = (alphabet r c \<or> alphabet s c)"
| "alphabet (Star r) c = alphabet r c"

text \<open>A syntactic test that an expression has no word at all.\<close>

fun void :: "rexp \<Rightarrow> bool" where
  "void Zero = True"
| "void One = False"
| "void (Cls p) = False"
| "void (Alt r s) = (void r \<and> void s)"
| "void (Times r s) = (void r \<or> void s)"
| "void (Star r) = False"

text \<open>A string that is not empty and holds no whitespace.\<close>

definition clean :: "string \<Rightarrow> bool" where
  "clean e = (e \<noteq> [] \<and> (\<forall>c\<in>set e. \<not> isspace c))"

text \<open>A list whose entries are all valid addresses without whitespace.\<close>

definition wellformed :: "string list \<Rightarrow> bool" where
  "wellformed xs = (\<forall>e\<in>set xs. clean e \<and> validate_email e)"

section \<open>Example inputs\<close>

text \<open>A file edited by hand: mixed line ends, padding, a blank line, an invalid line, duplicates.\<close>

definition hand_edited :: client_file where
  "hand_edited = \<lparr>present = True, readable = True, writable = True,
     content = ''b@x.com'' @ [CR, LF] @ '' A@x.com '' @ [LF, LF] @ ''bad'' @ [CR] @ ''a@x.com'' @ [LF] @ ''b@x.com''\<rparr>"

text \<open>No file yet, in a directory where one can be created.\<close>

definition no_file :: client_file where
  "no_file = \<lparr>present = False, readable = True, writable = True, content = []\<rparr>"

text \<open>A file that exists and cannot be read.\<close>

definition locked_file :: client_file where
  "locked_file = \<lparr>present = True, readable = False, writable = False, content = ''a@b.co''\<rparr>"

text \<open>A file with one recipient.\<close>

definition one_recipient :: client_file where
  "one_recipient = \<lparr>present = True, readable = True, writable = True, content = ''a@b.co''\<rparr>"

definition demo_config :: config where
  "demo_config = \<lparr>SENDER_EMAIL = ''alerts@example.com'', SENDER_PASSWORD = ''secret''\<rparr>"

text \<open>A server that accepts everything.\<close>

definition accepting :: smtp_server where
  "accepting = \<lparr>on_connect = None, on_login = None, on_send = None\<rparr>"

text \<open>Messages of 60 and of 30 characters.\<close>

definition message60 :: string where
  "message60 = ''Disk usage on host db-01 has crossed ninety percent of quota''"

definition message30 :: string where
  "message30 = ''Nightly backup did not finish.''"

text \<open>A message that is an RFC 2047 encoded word, and a message of two lines.\<close>

definition encoded_word_message :: string where
  "encoded_word_message = ''=?utf-8?q?hi?=''"

definition two_line_message :: string where
  "two_line_message = ''disk full'' @ [LF] @ ''check db-01''"

text \<open>
  What the \<open>email\<close> package of Python 3 does with the header values of the examples in this
  file, each looked up in the package: plain one-line text and plain addresses are kept
  as they are, the encoded word is decoded, the value of two lines is refused. Outside
  these values the model says nothing about the package; this example refuses them, so
  that no example rests on a value that was not looked up.
\<close>

definition looked_up :: "((string \<times> string) \<times> (py_exception + string)) list" where
  "looked_up =
     [((''Subject'', ''System Alert: '' @ take 50 message60 @ ''...''),
         Inr (''System Alert: '' @ take 50 message60 @ ''...'')),
      ((''Subject'', ''System Alert: '' @ message30), Inr (''System Alert: '' @ message30)),
      ((''Subject'', ''System Alert: '' @ replicate 50 CHR ''a'' @ ''...''),
         Inr (''System Alert: '' @ replicate 50 CHR ''a'' @ ''...'')),
      ((''Subject'', ''System Alert: =?utf-8?q?hi?=''), Inr ''System Alert: hi''),
      ((''Subject'', ''System Alert: disk full'' @ [LF] @ ''check db-01''),
         Inl (ValueError
           ''Header values may not contain linefeed or carriage return characters'')),
      ((''From'', ''alerts@example.com''), Inr ''alerts@example.com''),
      ((''To'', ''a@b.co''), Inr ''a@b.co'')]"

definition email_package :: mail_library where
  "email_package =
     \<lparr>store_header = (\<lambda>name value.
        case map_of looked_up (name, value) of
          Some r \<Rightarrow> r
        | None \<Rightarrow> Inl (OtherException ''not looked up''))\<rparr>"


section \<open>Characters and regular expressions\<close>

lemma void_not_nullable: "void r \<Longrightarrow> \<not> nullable r"
  by (induction r) auto

lemma void_deriv: "void r \<Longrightarrow> void (deriv c r)"
  by (induction r) (auto simp: void_not_nullable)

lemma void_no_match: "void r \<Longrightarrow> \<not> fullmatch r s"
  by (induction s arbitrary: r) (auto simp: void_not_nullable void_deriv)

lemma deriv_outside_alphabet: "\<not> alphabet r c \<Longrightarrow> void (deriv c r)"
  by (induction r) auto

lemma alphabet_deriv: "alphabet (deriv c r) d \<Longrightarrow> alphabet r d"
  by (induction r) (auto split: if_splits)

lemma fullmatch_alphabet: "fullmatch r s \<Longrightarrow> c \<in> set s \<Longrightarrow> alphabet r c"
proof (induction s arbitrary: r)
  case Nil
  then show ?case by simp
next
  case (Cons a s)
  show ?case
  proof (cases "c = a")
    case True
    with Cons.prems(1) show ?thesis
      using deriv_outside_alphabet void_no_match by fastforce
  next
    case False
    with Cons show ?thesis by (auto dest: alphabet_deriv)
  qed
qed

lemma code_simps: "code CHR ''a'' = 97" "code CHR ''z'' = 122" "code CHR ''A'' = 65" "code CHR ''Z'' = 90"
  "code CHR ''0'' = 48" "code CHR ''9'' = 57" "code CHR ''.'' = 46" "code CHR ''_'' = 95" "code CHR ''%'' = 37"
  "code CHR ''+'' = 43" "code CHR ''-'' = 45" "code CHR ''@'' = 64" "code LF = 10" "code CR = 13"
  by (simp_all add: code_def LF_def CR_def)

lemma code_lt: "code c < 256"
  by (simp add: code_def)

lemma email_alphabet:
  "alphabet email_body c \<Longrightarrow> 
     in_range CHR ''a'' CHR ''z'' c \<or> in_range CHR ''A'' CHR ''Z'' c \<or>
      in_range CHR ''0'' CHR ''9'' c \<or> c \<in> set ''._%+-@''"
  by (auto simp: email_body_def Plus_def AtLeast2_def Lit_def local_char_def domain_char_def alpha_char_def)

lemma email_alphabet_not_space: "alphabet email_body c \<Longrightarrow> \<not> isspace c"
  by (drule email_alphabet) (auto simp: in_range_def isspace_def code_simps Let_def)

lemma lower_char_idem: "lower_char (lower_char c) = lower_char c"
  using code_lt[of c]
  by (auto simp: lower_char_def Let_def code_def)

lemma isspace_LF: "isspace LF"
  by (simp add: isspace_def code_simps)

lemma isspace_CR: "isspace CR"
  by (simp add: isspace_def code_simps)

lemma dropWhile_keep: "xs = [] \<or> \<not> P (hd xs) \<Longrightarrow> dropWhile P xs = xs"
  by (cases xs) auto

lemma strip_nospace: "s \<noteq> [] \<Longrightarrow> \<not> isspace (hd s) \<Longrightarrow> \<not> isspace (last s) \<Longrightarrow> strip s = s"
  by (simp add: strip_def dropWhile_keep hd_rev)

lemma strip_clean: "\<forall>c\<in>set s. \<not> isspace c \<Longrightarrow> strip s = s"
proof (cases "s = []")
  case True
  then show ?thesis by (simp add: strip_def)
next
  case False
  moreover assume "\<forall>c\<in>set s. \<not> isspace c"
  ultimately show ?thesis by (intro strip_nospace) simp_all
qed

lemma strip_clean_LF:
  assumes "s \<noteq> []" "\<forall>c\<in>set s. \<not> isspace c"
  shows "strip (s @ [LF]) = s"
proof -
  have "dropWhile isspace (s @ [LF]) = s @ [LF]"
    using assms by (intro dropWhile_keep) (simp add: hd_append)
  moreover have "dropWhile isspace (rev s) = rev s"
    using assms by (intro dropWhile_keep) (simp add: hd_rev)
  ultimately show ?thesis by (simp add: strip_def isspace_LF)
qed

lemma strip_ends:
  assumes ne: "strip s \<noteq> []"
  shows "\<not> isspace (hd (strip s)) \<and> \<not> isspace (last (strip s))"
proof -
  define t where "t = dropWhile isspace s"
  define u where "u = dropWhile isspace (rev t)"
  have s: "strip s = rev u" by (simp add: strip_def t_def u_def)
  with ne have u: "u \<noteq> []" by simp
  then have hu: "\<not> isspace (hd u)" unfolding u_def by (rule hd_dropWhile)
  have t: "t \<noteq> []" using u by (auto simp: u_def)
  then have ht: "\<not> isspace (hd t)" unfolding t_def by (rule hd_dropWhile)
  have "rev t = takeWhile isspace (rev t) @ u" by (simp add: u_def)
  then have "last (rev t) = last u" using u by (metis last_appendR)
  then have "last u = hd t" using t by (simp add: last_rev)
  with ht hu u show ?thesis by (simp add: s hd_rev last_rev)
qed

lemma universal_newlines_noCR: "CR \<notin> set s \<Longrightarrow> universal_newlines False s = s"
  by (induction s) auto

lemma split_lines_noLF: "LF \<notin> set y \<Longrightarrow> split_lines cur y = (if cur @ y = [] then [] else [cur @ y])"
  by (induction y arbitrary: cur) auto

lemma split_lines_line: "LF \<notin> set y \<Longrightarrow> split_lines cur (y @ LF # rest) = (cur @ y @ [LF]) # split_lines [] rest"
  by (induction y arbitrary: cur) auto

lemma clean_noLF: "clean e \<Longrightarrow> LF \<notin> set e"
  using isspace_LF by (auto simp: clean_def)

lemma clean_noCR: "clean e \<Longrightarrow> CR \<notin> set e"
  using isspace_CR by (auto simp: clean_def)

lemma join_noCR: "\<forall>e\<in>set ys. clean e \<Longrightarrow> CR \<notin> set (join [LF] ys)"
  by (induction "[LF]" ys rule: join.induct) (auto dest: clean_noCR simp: LF_def CR_def)

lemma lines_join:
  "\<forall>e\<in>set ys. clean e \<Longrightarrow>
   map strip (filter (\<lambda>line. strip line \<noteq> []) (split_lines [] (join [LF] ys))) = ys"
proof (induction "[LF]" ys rule: join.induct)
  case 1
  then show ?case by simp
next
  case (2 x)
  then have "clean x" by simp
  then show ?case
    by (simp add: split_lines_noLF clean_noLF strip_clean) (simp add: clean_def strip_clean)
next
  case (3 x y ys)
  then have x: "clean x" by simp
  have "split_lines [] (join [LF] (x # y # ys)) = (x @ [LF]) # split_lines [] (join [LF] (y # ys))"
    using split_lines_line[OF clean_noLF[OF x], of "[]"] by simp
  moreover have "strip (x @ [LF]) = x" using x by (simp add: clean_def strip_clean_LF)
  ultimately show ?case using 3 x by (simp add: clean_def)
qed

section \<open>Reading and writing the list\<close>

lemma valid_stripped_clean:
  assumes v: "validate_email e" and ne: "e \<noteq> []" and l: "\<not> isspace (last e)"
  shows "clean e"
proof -
  have "last e \<noteq> LF" using l isspace_LF by auto
  with v have "fullmatch email_body e" by (auto simp: validate_email_def re_match_to_dollar_def)
  then have "\<forall>c\<in>set e. \<not> isspace c"
    by (blast dest: fullmatch_alphabet email_alphabet_not_space)
  with ne show ?thesis by (simp add: clean_def)
qed

lemma get_recipients_valid: "e \<in> set (get_recipients f) \<Longrightarrow> validate_email e"
  by (auto simp: get_recipients_def readlines_def text_lines_def split: if_splits)

lemma get_recipients_clean: "e \<in> set (get_recipients f) \<Longrightarrow> clean e"
proof -
  assume "e \<in> set (get_recipients f)"
  then obtain l where e: "e = strip l" "strip l \<noteq> []" "validate_email e"
    by (auto simp: get_recipients_def readlines_def text_lines_def split: if_splits)
  then show ?thesis using strip_ends[of l] by (intro valid_stripped_clean) simp_all
qed

lemma get_recipients_written:
  assumes "\<forall>e\<in>set ys. clean e \<and> validate_email e" "readable f"
  shows "get_recipients (f\<lparr>present := True, content := join [LF] ys\<rparr>) = ys"
proof -
  have c: "\<forall>e\<in>set ys. clean e" using assms by simp
  have "universal_newlines False (join [LF] ys) = join [LF] ys"
    by (rule universal_newlines_noCR) (rule join_noCR[OF c])
  then show ?thesis using assms lines_join[OF c]
    by (simp add: get_recipients_def readlines_def text_lines_def filter_id_conv)
qed

lemma fromkeys_into_set: "set (fromkeys_into keys xs) = set keys \<union> set xs"
  by (induction xs arbitrary: keys) auto

lemma fromkeys_into_distinct: "distinct keys \<Longrightarrow> distinct (fromkeys_into keys xs)"
  by (induction xs arbitrary: keys) auto

lemma fromkeys_into_id: "distinct (keys @ xs) \<Longrightarrow> fromkeys_into keys xs = keys @ xs"
  by (induction xs arbitrary: keys) auto

lemma remdups_snoc: "remdups (ys @ [x]) = remdups (removeAll x ys) @ [x]"
  by (induction ys) auto

lemma rev_removeAll: "rev (removeAll x ys) = removeAll x (rev ys)"
  by (simp add: removeAll_filter_not_eq rev_filter)

lemma fromkeys_into_first:
  "fromkeys_into keys xs = keys @ rev (remdups (rev (filter (\<lambda>x. x \<notin> set keys) xs)))"
proof (induction xs arbitrary: keys)
  case Nil
  then show ?case by simp
next
  case (Cons x xs)
  show ?case
  proof (cases "x \<in> set keys")
    case True
    then show ?thesis by (simp add: Cons.IH)
  next
    case False
    have "filter (\<lambda>y. y \<notin> set (keys @ [x])) xs = removeAll x (filter (\<lambda>y. y \<notin> set keys) xs)"
      by (induction xs) auto
    then show ?thesis using False
      by (simp add: Cons.IH remdups_snoc rev_removeAll)
  qed
qed

lemma fromkeys_first: "fromkeys xs = rev (remdups (rev xs))"
  by (simp add: fromkeys_def fromkeys_into_first)

lemma unique_emails_set: "set (unique_emails xs) = set xs"
  by (simp add: unique_emails_def fromkeys_def fromkeys_into_set)

lemma unique_emails_distinct: "distinct (unique_emails xs)"
  by (simp add: unique_emails_def fromkeys_def fromkeys_into_distinct)

lemma unique_emails_sorted: "sorted (map lower (unique_emails xs))"
  by (simp add: unique_emails_def)

lemma unique_emails_idem: "unique_emails (unique_emails xs) = unique_emails xs"
proof -
  have "fromkeys (unique_emails xs) = unique_emails xs"
    using fromkeys_into_id[of "[]" "unique_emails xs"] unique_emails_distinct[of xs]
    by (simp add: fromkeys_def)
  then show ?thesis
    using unique_emails_sorted[of xs] by (simp add: unique_emails_def[of "unique_emails xs"] sort_key_id_if_sorted)
qed

lemma lower_idem: "lower (lower s) = lower s"
  by (simp add: lower_def lower_char_idem)

lemma lower_char_space: "isspace (lower_char c) \<Longrightarrow> isspace c"
  using code_lt[of c]
  by (auto simp: lower_char_def isspace_def Let_def code_def split: if_splits)

lemma lower_char_not_capital: "\<not> in_range CHR ''A'' CHR ''Z'' (lower_char c)"
  using code_lt[of c]
  by (auto simp: lower_char_def in_range_def Let_def code_def split: if_splits)

lemma lower_no_capital: "c \<in> set (lower s) \<Longrightarrow> \<not> in_range CHR ''A'' CHR ''Z'' c"
  by (auto simp: lower_def lower_char_not_capital)

lemma lower_strip_clean:
  assumes "validate_email (lower (strip x))" "lower (strip x) \<noteq> []"
  shows "clean (lower (strip x))"
proof -
  have ne: "strip x \<noteq> []" using assms(2) by (simp add: lower_def)
  then have "\<not> isspace (last (strip x))" using strip_ends by blast
  then have "\<not> isspace (last (lower (strip x)))"
    using ne by (auto simp: lower_def last_map dest: lower_char_space)
  with assms show ?thesis by (intro valid_stripped_clean)
qed

lemma wellformed_get_recipients: "wellformed (get_recipients f)"
  by (simp add: wellformed_def get_recipients_clean get_recipients_valid)

lemma get_recipients_saved:
  assumes "wellformed xs" "writable f"
  shows "get_recipients (snd (save_recipients xs f)) = (if readable f then unique_emails xs else [])"
proof -
  have s: "snd (save_recipients xs f) = f\<lparr>present := True, content := join [LF] (unique_emails xs)\<rparr>"
    using assms(2) by (simp add: save_recipients_def write_text_def)
  show ?thesis
  proof (cases "readable f")
    case True
    have "\<forall>e\<in>set (unique_emails xs). clean e \<and> validate_email e"
      using assms(1) by (simp add: wellformed_def unique_emails_set)
    then show ?thesis using True by (simp add: s get_recipients_written)
  next
    case False
    then show ?thesis by (simp add: s get_recipients_def readlines_def)
  qed
qed

lemma save_unwritable: "\<not> writable f \<Longrightarrow> save_recipients xs f = (False, f)"
  by (simp add: save_recipients_def write_text_def)

lemma save_writable:
  "writable f \<Longrightarrow> save_recipients xs f = (True, f\<lparr>present := True, content := join [LF] (unique_emails xs)\<rparr>)"
  by (simp add: save_recipients_def write_text_def)

section \<open>Sending\<close>

lemma get_recipients_fixed: "e \<in> set (get_recipients f) \<Longrightarrow> e \<noteq> [] \<and> strip e = e"
  using get_recipients_clean[of e f] by (simp add: clean_def strip_clean)

lemma build_message_subject:
  "build_message cfg lib recipients message = Inr m \<Longrightarrow>
   store_header lib ''Subject'' (subject_of message) = Inr (msg_subject m)"
  by (auto simp: build_message_def split: sum.splits)

lemma build_message_ok:
  assumes "store_header lib ''Subject'' (subject_of message) = Inr subj"
    and "store_header lib ''From'' (SENDER_EMAIL cfg) = Inr sender"
    and "store_header lib ''To'' (join '', '' recipients) = Inr rcpts"
  shows "build_message cfg lib recipients message =
     Inr \<lparr>msg_subject = subj, msg_from = sender, msg_to = rcpts,
          msg_content = ''System Alert Notification:'' @ [LF, LF] @ message\<rparr>"
  using assms by (simp add: build_message_def)

lemma build_message_refused:
  "store_header lib ''Subject'' (subject_of message) = Inl e \<Longrightarrow>
   build_message cfg lib recipients message = Inl e"
  by (simp add: build_message_def)

lemma sent_message:
  "SendMessage m \<in> set (snd (send_email_to_all cfg lib message f srv)) \<Longrightarrow>
   build_message cfg lib (get_recipients f) message = Inr m"
  by (auto simp: send_email_to_all_def smtp_session_def Let_def
      split: if_splits option.splits sum.splits)

text \<open>
  The subject that goes out is what the package made of the value the code assigned, and
  the code assigns the prefix, the first 50 characters and the ellipsis of a longer message.
\<close>

lemma sent_subject:
  "SendMessage m \<in> set (snd (send_email_to_all cfg lib message f srv)) \<Longrightarrow>
   store_header lib ''Subject''
     (''System Alert: '' @ (if length message > 50 then take 50 message @ ''...'' else message))
     = Inr (msg_subject m)"
  by (drule sent_message, drule build_message_subject) (auto simp: subject_of_def)

lemma send_with_stored_headers:
  assumes "get_recipients f \<noteq> []"
    and "store_header lib ''Subject'' (subject_of message) = Inr subj"
    and "store_header lib ''From'' (SENDER_EMAIL cfg) = Inr sender"
    and "store_header lib ''To'' (join '', '' (get_recipients f)) = Inr rcpts"
  shows "send_email_to_all cfg lib message f accepting =
     (Inr (),
      [Connect ''smtp.gmail.com'' 465, Login (SENDER_EMAIL cfg) (SENDER_PASSWORD cfg),
       SendMessage \<lparr>msg_subject = subj, msg_from = sender, msg_to = rcpts,
          msg_content = ''System Alert Notification:'' @ [LF, LF] @ message\<rparr>,
       Quit])"
  using assms(1) build_message_ok[OF assms(2,3,4)]
  by (simp add: send_email_to_all_def smtp_session_def accepting_def)

text \<open>
  The two examples of the specification, a message of 60 and one of 30 characters of plain
  text: the package keeps the subject as assigned, and it goes out as the specification
  says.
\<close>

lemma plain_subjects_go_out:
  "send_email_to_all demo_config email_package message60 one_recipient accepting =
     (Inr (),
      [Connect ''smtp.gmail.com'' 465, Login ''alerts@example.com'' ''secret'',
       SendMessage
         \<lparr>msg_subject = ''System Alert: '' @ take 50 message60 @ ''...'',
          msg_from = ''alerts@example.com'', msg_to = ''a@b.co'',
          msg_content = ''System Alert Notification:'' @ [LF, LF] @ message60\<rparr>,
       Quit])
   \<and> send_email_to_all demo_config email_package message30 one_recipient accepting =
     (Inr (),
      [Connect ''smtp.gmail.com'' 465, Login ''alerts@example.com'' ''secret'',
       SendMessage
         \<lparr>msg_subject = ''System Alert: '' @ message30,
          msg_from = ''alerts@example.com'', msg_to = ''a@b.co'',
          msg_content = ''System Alert Notification:'' @ [LF, LF] @ message30\<rparr>,
       Quit])"
proof -
  have g: "get_recipients one_recipient \<noteq> []" by code_simp
  have s60: "store_header email_package ''Subject'' (subject_of message60) =
      Inr (''System Alert: '' @ take 50 message60 @ ''...'')"
    by code_simp
  have s30: "store_header email_package ''Subject'' (subject_of message30) =
      Inr (''System Alert: '' @ message30)"
    by code_simp
  have h2: "store_header email_package ''From'' (SENDER_EMAIL demo_config) =
      Inr ''alerts@example.com''"
    by code_simp
  have h3: "store_header email_package ''To'' (join '', '' (get_recipients one_recipient)) =
      Inr ''a@b.co''"
    by code_simp
  have cfg: "SENDER_EMAIL demo_config = ''alerts@example.com''"
    "SENDER_PASSWORD demo_config = ''secret''"
    by (simp_all add: demo_config_def)
  show ?thesis
    using send_with_stored_headers[OF g s60 h2 h3] send_with_stored_headers[OF g s30 h2 h3]
    by (simp only: cfg)
qed

section \<open>The matcher and the pattern\<close>

text \<open>
  The matcher by derivatives accepts exactly the words of the expression, and the words
  of \<^const>\<open>email_body\<close> are the full matches of the pattern as the specification words
  it. So \<^const>\<open>validate_email\<close> accepts these and, besides, each of them followed by one
  newline.
\<close>

lemma nullable_lang: "nullable r \<longleftrightarrow> [] \<in> lang r"
  by (induction r) (auto simp: conc_def intro: star.star_empty)

lemma conc_Cons:
  "c # w \<in> conc A B \<longleftrightarrow>
     (\<exists>u v. w = u @ v \<and> c # u \<in> A \<and> v \<in> B) \<or> ([] \<in> A \<and> c # w \<in> B)"
proof
  assume "c # w \<in> conc A B"
  then obtain u v where uv: "c # w = u @ v" "u \<in> A" "v \<in> B" by (auto simp: conc_def)
  show "(\<exists>u v. w = u @ v \<and> c # u \<in> A \<and> v \<in> B) \<or> ([] \<in> A \<and> c # w \<in> B)"
  proof (cases u)
    case Nil
    with uv show ?thesis by simp
  next
    case (Cons a u')
    with uv have "w = u' @ v" "c # u' \<in> A" by simp_all
    with uv(3) show ?thesis by blast
  qed
next
  assume "(\<exists>u v. w = u @ v \<and> c # u \<in> A \<and> v \<in> B) \<or> ([] \<in> A \<and> c # w \<in> B)"
  then show "c # w \<in> conc A B"
  proof
    assume "\<exists>u v. w = u @ v \<and> c # u \<in> A \<and> v \<in> B"
    then obtain u v where "w = u @ v" "c # u \<in> A" "v \<in> B" by blast
    then have "c # w = (c # u) @ v" by simp
    then show ?thesis using \<open>c # u \<in> A\<close> \<open>v \<in> B\<close> unfolding conc_def by blast
  next
    assume "[] \<in> A \<and> c # w \<in> B"
    then have "c # w = [] @ (c # w)" "[] \<in> A" "c # w \<in> B" by simp_all
    then show ?thesis unfolding conc_def by blast
  qed
qed

lemma star_Cons_split:
  assumes "x \<in> star A" "x = c # w"
  shows "\<exists>u v. w = u @ v \<and> c # u \<in> A \<and> v \<in> star A"
  using assms
proof (induction arbitrary: c w rule: star.induct)
  case star_empty
  then show ?case by simp
next
  case (star_more u v)
  show ?case
  proof (cases u)
    case Nil
    with star_more show ?thesis by simp
  next
    case (Cons a u')
    with star_more.prems have "w = u' @ v" "a = c" by simp_all
    with Cons star_more.hyps show ?thesis by blast
  qed
qed

lemma star_Cons:
  "c # w \<in> star A \<longleftrightarrow> (\<exists>u v. w = u @ v \<and> c # u \<in> A \<and> v \<in> star A)"
proof
  assume "c # w \<in> star A"
  then show "\<exists>u v. w = u @ v \<and> c # u \<in> A \<and> v \<in> star A" by (rule star_Cons_split) simp
next
  assume "\<exists>u v. w = u @ v \<and> c # u \<in> A \<and> v \<in> star A"
  then obtain u v where "w = u @ v" "c # u \<in> A" "v \<in> star A" by blast
  then show "c # w \<in> star A" using star.star_more[of "c # u" A v] by simp
qed

lemma deriv_lang: "w \<in> lang (deriv c r) \<longleftrightarrow> c # w \<in> lang r"
proof (induction r arbitrary: w)
  case (Times r s)
  then show ?case by (auto simp: conc_Cons nullable_lang) (auto simp: conc_def)
next
  case (Star r)
  then show ?case by (auto simp: star_Cons) (auto simp: conc_def)
qed auto

lemma fullmatch_lang: "fullmatch r s \<longleftrightarrow> s \<in> lang r"
  by (induction s arbitrary: r) (simp_all add: nullable_lang deriv_lang)

lemma conc_iff: "w \<in> conc A B \<longleftrightarrow> (\<exists>u v. w = u @ v \<and> u \<in> A \<and> v \<in> B)"
  by (auto simp: conc_def)

lemma lang_Lit: "lang (Lit a) = {[a]}"
  by (auto simp: Lit_def)

lemma star_class: "w \<in> star {[c] | c. p c} \<longleftrightarrow> list_all p w"
proof
  assume "w \<in> star {[c] | c. p c}"
  then show "list_all p w" by induction auto
next
  assume "list_all p w"
  then show "w \<in> star {[c] | c. p c}"
  proof (induction w)
    case Nil
    show ?case by (rule star.star_empty)
  next
    case (Cons a w)
    then have "[a] \<in> {[c] | c. p c}" "w \<in> star {[c] | c. p c}" by simp_all
    then have "[a] @ w \<in> star {[c] | c. p c}" by (rule star.star_more)
    then show ?case by simp
  qed
qed

lemma conc_class: "w \<in> conc {[c] | c. p c} B \<longleftrightarrow> (\<exists>a v. w = a # v \<and> p a \<and> v \<in> B)"
proof
  assume "w \<in> conc {[c] | c. p c} B"
  then show "\<exists>a v. w = a # v \<and> p a \<and> v \<in> B" by (auto simp: conc_iff)
next
  assume "\<exists>a v. w = a # v \<and> p a \<and> v \<in> B"
  then obtain a v where "w = [a] @ v" "[a] \<in> {[c] | c. p c}" "v \<in> B" by auto
  then show "w \<in> conc {[c] | c. p c} B" unfolding conc_iff by blast
qed

lemma lang_Plus_class: "w \<in> lang (Plus (Cls p)) \<longleftrightarrow> w \<noteq> [] \<and> list_all p w"
proof -
  have "w \<in> lang (Plus (Cls p)) \<longleftrightarrow> (\<exists>a v. w = a # v \<and> p a \<and> list_all p v)"
    by (simp add: Plus_def conc_class star_class)
  also have "\<dots> \<longleftrightarrow> w \<noteq> [] \<and> list_all p w" by (cases w) auto
  finally show ?thesis .
qed

lemma lang_AtLeast2_class: "w \<in> lang (AtLeast2 (Cls p)) \<longleftrightarrow> 2 \<le> length w \<and> list_all p w"
proof -
  have "w \<in> lang (AtLeast2 (Cls p)) \<longleftrightarrow> (\<exists>a b v. w = a # b # v \<and> p a \<and> p b \<and> list_all p v)"
    by (simp add: AtLeast2_def conc_class star_class) blast
  also have "\<dots> \<longleftrightarrow> 2 \<le> length w \<and> list_all p w"
    by (cases w; cases "tl w") auto
  finally show ?thesis .
qed

lemma lang_email_body: "s \<in> lang email_body \<longleftrightarrow> pattern_full_match s"
proof
  assume "s \<in> lang email_body"
  then obtain l r1 where 1: "s = l @ r1" "l \<in> lang (Plus (Cls local_char))"
      "r1 \<in> lang (Times (Lit CHR ''@'')
          (Times (Plus (Cls domain_char))
             (Times (Lit CHR ''.'') (AtLeast2 (Cls alpha_char)))))"
    unfolding email_body_def lang.simps(5) conc_iff by blast
  from 1(3) obtain r2 where 2: "r1 = ''@'' @ r2"
      "r2 \<in> lang (Times (Plus (Cls domain_char))
             (Times (Lit CHR ''.'') (AtLeast2 (Cls alpha_char))))"
    unfolding lang.simps(5)[of "Lit CHR ''@''"] conc_iff lang_Lit by auto
  from 2(2) obtain d r3 where 3: "r2 = d @ r3" "d \<in> lang (Plus (Cls domain_char))"
      "r3 \<in> lang (Times (Lit CHR ''.'') (AtLeast2 (Cls alpha_char)))"
    unfolding lang.simps(5)[of "Plus (Cls domain_char)"] conc_iff by blast
  from 3(3) obtain t where 4: "r3 = ''.'' @ t" "t \<in> lang (AtLeast2 (Cls alpha_char))"
    unfolding lang.simps(5)[of "Lit CHR ''.''"] conc_iff lang_Lit by auto
  have "s = l @ ''@'' @ d @ ''.'' @ t" using 1(1) 2(1) 3(1) 4(1) by simp
  then show "pattern_full_match s"
    using 1(2) 3(2) 4(2) unfolding pattern_full_match_def lang_Plus_class lang_AtLeast2_class
    by blast
next
  assume "pattern_full_match s"
  then obtain l d t where s: "s = l @ ''@'' @ d @ ''.'' @ t"
    and l: "l \<in> lang (Plus (Cls local_char))"
    and d: "d \<in> lang (Plus (Cls domain_char))"
    and t: "t \<in> lang (AtLeast2 (Cls alpha_char))"
    unfolding pattern_full_match_def lang_Plus_class lang_AtLeast2_class by blast
  have "''.'' @ t \<in> lang (Times (Lit CHR ''.'') (AtLeast2 (Cls alpha_char)))"
    unfolding lang.simps(5) conc_iff lang_Lit using t by blast
  then have "d @ ''.'' @ t \<in> lang (Times (Plus (Cls domain_char))
             (Times (Lit CHR ''.'') (AtLeast2 (Cls alpha_char))))"
    unfolding lang.simps(5)[of "Plus (Cls domain_char)"] conc_iff using d by blast
  then have "''@'' @ d @ ''.'' @ t \<in> lang (Times (Lit CHR ''@'')
          (Times (Plus (Cls domain_char))
             (Times (Lit CHR ''.'') (AtLeast2 (Cls alpha_char)))))"
    unfolding lang.simps(5)[of "Lit CHR ''@''"] conc_iff lang_Lit by blast
  then show "s \<in> lang email_body"
    unfolding email_body_def s lang.simps(5)[of "Plus (Cls local_char)"] conc_iff using l by blast
qed

lemma fullmatch_email_body: "fullmatch email_body s \<longleftrightarrow> pattern_full_match s"
  by (simp add: fullmatch_lang lang_email_body)

lemma validate_email_iff:
  "validate_email s \<longleftrightarrow>
     pattern_full_match s \<or> (\<exists>b. s = b @ [LF] \<and> pattern_full_match b)"
proof -
  have "(s \<noteq> [] \<and> last s = LF \<and> pattern_full_match (butlast s)) \<longleftrightarrow>
      (\<exists>b. s = b @ [LF] \<and> pattern_full_match b)"
    by (cases s rule: rev_cases) auto
  then show ?thesis
    by (simp add: validate_email_def re_match_to_dollar_def fullmatch_email_body)
qed

section \<open>Trimming, again\<close>

lemma strip_clean_space:
  assumes "s \<noteq> []" "\<forall>c\<in>set s. \<not> isspace c" "isspace w"
  shows "strip (s @ [w]) = s"
proof -
  have "dropWhile isspace (s @ [w]) = s @ [w]"
    using assms by (intro dropWhile_keep) (simp add: hd_append)
  moreover have "dropWhile isspace (rev s) = rev s"
    using assms by (intro dropWhile_keep) (simp add: hd_rev)
  ultimately show ?thesis using assms(3) by (simp add: strip_def)
qed

lemma pattern_full_match_last:
  assumes "pattern_full_match s"
  shows "alpha_char (last s)"
proof -
  from assms obtain l d t where s: "s = l @ ''@'' @ d @ ''.'' @ t" and t: "2 \<le> length t" "list_all alpha_char t"
    by (auto simp: pattern_full_match_def)
  from t(1) have ne: "t \<noteq> []" by auto
  then have "last s = last t" by (simp add: s)
  moreover have "last t \<in> set t" using ne by simp
  ultimately show ?thesis using t(2) by (simp add: list_all_iff)
qed

section \<open>Updating the list\<close>

lemma add_step_empty: "add_step [] st = st"
  by (simp add: add_step_def split: prod.splits)

lemma remove_step_empty: "remove_step [] st = st"
  by (simp add: remove_step_def split: prod.splits)

lemma filter_shorter_iff: "length (filter P xs) < length xs \<longleftrightarrow> (\<exists>x\<in>set xs. \<not> P x)"
proof
  assume "length (filter P xs) < length xs"
  then have "filter P xs \<noteq> xs" by auto
  then show "\<exists>x\<in>set xs. \<not> P x" by (auto simp: filter_id_conv)
next
  assume "\<exists>x\<in>set xs. \<not> P x"
  then show "length (filter P xs) < length xs" by (auto intro: length_filter_less)
qed

lemma removed_iff_found:
  "length (filter (\<lambda>e. lower e \<noteq> r) cur) < length cur \<longleftrightarrow> r \<in> set (map lower cur)"
  by (auto simp: filter_shorter_iff)

lemma remove_step_eq:
  "r \<noteq> [] \<Longrightarrow>
   remove_step r (cur, fl, ch) =
     (filter (\<lambda>e. lower e \<noteq> r) cur,
      fl @ [if r \<in> set (map lower cur)
            then (''Removed '' @ r @ '' from the recipient list.'', ''success'')
            else (r @ '' was not found in the recipient list.'', ''error'')],
      ch \<or> r \<in> set (map lower cur))"
  using removed_iff_found[of r cur] by (simp add: remove_step_def Let_def)

lemma save_step_eq:
  "save_step (cur, fl, ch) f =
     (if ch then
        (if writable f
         then (fl, f\<lparr>present := True, content := join [LF] (unique_emails cur)\<rparr>)
         else (fl @ [(''Error saving recipient list. Please try again.'', ''error'')], f))
      else (fl, f))"
  by (simp add: save_step_def save_writable save_unwritable)

lemma add_step_eq:
  "a \<noteq> [] \<Longrightarrow>
   add_step a (cur, fl, ch) =
     (if \<not> validate_email a
      then (cur, fl @ [(''Invalid email format: '' @ a, ''error'')], ch)
      else if lower a \<in> set (map lower cur)
      then (cur, fl @ [(a @ '' is already in the recipient list.'', ''error'')], ch)
      else (cur @ [a], fl @ [(''Added '' @ a @ '' to the recipient list.'', ''success'')], True))"
  by (simp add: add_step_def)

lemma add_step_list:
  "fst (add_step a (cur, fl, ch)) = cur \<or>
   (fst (add_step a (cur, fl, ch)) = cur @ [a] \<and> a \<noteq> [] \<and> validate_email a)"
  by (cases "a = []") (simp_all add: add_step_empty add_step_eq)

lemma remove_step_list: "set (fst (remove_step r st)) \<subseteq> set (fst st)"
  by (cases st; cases "r = []") (auto simp: remove_step_empty remove_step_eq)

lemma wellformed_subset: "wellformed ys \<Longrightarrow> set xs \<subseteq> set ys \<Longrightarrow> wellformed xs"
  by (auto simp: wellformed_def)

lemma save_step_recipients:
  assumes "wellformed xs"
  shows "set (get_recipients (snd (save_step (xs, fl, ch) f))) \<subseteq> set xs \<union> set (get_recipients f)"
proof (cases "ch \<and> writable f")
  case True
  then have "snd (save_step (xs, fl, ch) f) = snd (save_recipients xs f)"
    by (simp add: save_step_eq save_writable)
  then show ?thesis
    using get_recipients_saved[OF assms, of f] True
    by (auto simp: unique_emails_set split: if_splits)
next
  case False
  then show ?thesis by (auto simp: save_step_eq)
qed

section \<open>What \<open>save_recipients\<close> computes\<close>

text \<open>
  \<open>dict.fromkeys\<close> keeps the first of the entries that are equal as strings; the sort is by
  lowercased form and stable; the file, when it can be written, becomes the result joined
  by newlines.
\<close>

lemma save_recipients_exact_dedup:
  "fromkeys recipients = rev (remdups (rev recipients))
   \<and> distinct (unique_emails recipients)
   \<and> set (unique_emails recipients) = set recipients
   \<and> sorted (map lower (unique_emails recipients))
   \<and> filter (\<lambda>e. lower e = k) (unique_emails recipients) =
       filter (\<lambda>e. lower e = k) (fromkeys recipients)
   \<and> save_recipients recipients f =
       (if writable f
        then (True, f\<lparr>present := True, content := join [LF] (unique_emails recipients)\<rparr>)
        else (False, f))"
proof -
  have "filter (\<lambda>e. lower e = k) (unique_emails recipients) =
       filter (\<lambda>e. lower e = k) (fromkeys recipients)"
    unfolding unique_emails_def by (rule sort_key_stable)
  then show ?thesis
    by (simp add: fromkeys_first unique_emails_distinct unique_emails_set unique_emails_sorted
        save_writable save_unwritable)
qed

lemma save_recipients_sorts:
  "save_recipients [''b@x.com'', ''A@x.com''] no_file =
     (True, no_file\<lparr>present := True, content := ''A@x.com'' @ [LF] @ ''b@x.com''\<rparr>)"
proof -
  have "unique_emails [''b@x.com'', ''A@x.com''] = [''A@x.com'', ''b@x.com'']" by code_simp
  then show ?thesis
    using save_recipients_exact_dedup[of "[''b@x.com'', ''A@x.com'']" "[]" no_file]
    by (simp add: no_file_def)
qed

section \<open>The claims\<close>

text \<open>
  C1. \<open>save\<close> should keep at most one address of those that are equal up to case, so that
  the saved list never holds two such addresses. The code compares with \<open>dict.fromkeys\<close>,
  that is by string equality, while the sort next to it and the add and remove paths
  compare lowercased addresses: \<open>A@x.co\<close> and \<open>a@x.co\<close> are both saved, and one add to a
  file edited by hand that holds \<open>A@x.com\<close> and \<open>a@x.com\<close> writes both back.
\<close>

theorem save_recipients_keeps_case_variants:
  "save_recipients [''A@x.co'', ''a@x.co''] no_file =
     (True, no_file\<lparr>present := True, content := ''A@x.co'' @ [LF] @ ''a@x.co''\<rparr>)
   \<and> lower ''A@x.co'' = lower ''a@x.co''
   \<and> \<not> distinct (map lower (unique_emails [''A@x.co'', ''a@x.co'']))
   \<and> update_clients ''new@y.org'' [] hand_edited =
     ([(''Added new@y.org to the recipient list.'', ''success'')],
      hand_edited\<lparr>content :=
        ''A@x.com'' @ [LF] @ ''a@x.com'' @ [LF] @ ''b@x.com'' @ [LF] @ ''new@y.org''\<rparr>)"
proof -
  have u: "unique_emails [''A@x.co'', ''a@x.co''] = [''A@x.co'', ''a@x.co'']" by code_simp
  have l: "lower ''A@x.co'' = ''a@x.co''" "lower ''a@x.co'' = ''a@x.co''" by code_simp+
  have a: "update_clients ''new@y.org'' [] hand_edited =
     ([(''Added new@y.org to the recipient list.'', ''success'')],
      hand_edited\<lparr>content :=
        ''A@x.com'' @ [LF] @ ''a@x.com'' @ [LF] @ ''b@x.com'' @ [LF] @ ''new@y.org''\<rparr>)"
    by code_simp
  show ?thesis by (simp add: save_recipients_def write_text_def u l no_file_def a)
qed

text \<open>
  C2. \<open>validate_email\<close> should accept exactly the full matches of the pattern. It also
  accepts a full match followed by one newline, since \<open>$\<close> matches before a final
  newline: here on \<open>a@b.co\<close> followed by a newline.
\<close>

theorem validate_email_trailing_newline:
  "validate_email (''a@b.co'' @ [LF]) \<and> \<not> pattern_full_match (''a@b.co'' @ [LF])"
proof -
  have "validate_email (''a@b.co'' @ [LF])" by code_simp
  moreover have "\<not> alpha_char LF" by code_simp
  then have "\<not> pattern_full_match (''a@b.co'' @ [LF])"
    using pattern_full_match_last[of "''a@b.co'' @ [LF]"] by auto
  ultimately show ?thesis by simp
qed

text \<open>
  C3. Saving what was just loaded is idempotent on the file: after one
  \<open>save(load())\<close>, a second one leaves the file exactly as the first left it, whatever
  the file's state was (missing, unreadable, unwritable, hand-edited).
\<close>

theorem resave_idem: "resave (resave f) = resave f"
proof (cases "writable f")
  case False
  then show ?thesis by (simp add: resave_def save_unwritable)
next
  case True
  let ?u = "unique_emails (get_recipients f)"
  have w: "writable (resave f)" using True by (simp add: resave_def save_writable)
  have rd: "readable (resave f) = readable f" using True by (simp add: resave_def save_writable)
  have g: "get_recipients (resave f) = (if readable f then ?u else [])"
    unfolding resave_def using wellformed_get_recipients True by (rule get_recipients_saved)
  have "unique_emails (get_recipients (resave f)) = ?u"
  proof (cases "readable f")
    case True
    then show ?thesis by (simp add: g unique_emails_idem)
  next
    case False
    then have "get_recipients f = []" by (simp add: get_recipients_def readlines_def)
    then show ?thesis using False by (simp add: g)
  qed
  then show ?thesis
    using True w by (simp add: resave_def[of "resave f"] save_writable) (simp add: resave_def save_writable)
qed

theorem resave_idem_witness:
  "resave hand_edited = hand_edited\<lparr>content := ''A@x.com'' @ [LF] @ ''a@x.com'' @ [LF] @ ''b@x.com''\<rparr>
   \<and> resave (resave hand_edited) = resave hand_edited"
proof -
  have "resave hand_edited = hand_edited\<lparr>content := ''A@x.com'' @ [LF] @ ''a@x.com'' @ [LF] @ ''b@x.com''\<rparr>"
    by code_simp
  then show ?thesis using resave_idem[of hand_edited] by simp
qed

text \<open>
  C4. \<open>load()\<close> never fails: it returns the empty list when the file is missing or cannot
  be read, and otherwise the file's lines, each trimmed of surrounding whitespace, without
  the blank ones and without those that fail \<open>validate_email\<close>.
\<close>

theorem get_recipients_spec:
  "get_recipients f =
     (if present f \<and> readable f
      then filter validate_email (filter (\<lambda>line. line \<noteq> []) (map strip (text_lines (content f))))
      else [])"
  by (simp add: get_recipients_def readlines_def filter_map comp_def)

theorem get_recipients_spec_witness:
  "get_recipients no_file = [] \<and> get_recipients locked_file = []
   \<and> get_recipients hand_edited = [''b@x.com'', ''A@x.com'', ''a@x.com'', ''b@x.com'']"
proof -
  have "map strip (text_lines (content hand_edited)) =
          [''b@x.com'', ''A@x.com'', [], ''bad'', ''a@x.com'', ''b@x.com'']"
    by code_simp
  moreover have "filter validate_email [''b@x.com'', ''A@x.com'', ''bad'', ''a@x.com'', ''b@x.com'']
      = [''b@x.com'', ''A@x.com'', ''a@x.com'', ''b@x.com'']"
    by code_simp
  moreover have "present hand_edited \<and> readable hand_edited" by (simp add: hand_edited_def)
  ultimately show ?thesis
    using get_recipients_spec[of no_file] get_recipients_spec[of locked_file]
      get_recipients_spec[of hand_edited]
    by (simp add: no_file_def locked_file_def)
qed

text \<open>
  C5. The subject of the email that goes out should be \<open>System Alert: \<close>, the first 50
  characters of the message and \<open>...\<close> when the message is longer. The code assigns exactly
  this value to the \<open>Subject\<close> header, as it is, and what goes out is what the \<open>email\<close>
  package makes of it: for the message \<open>=?utf-8?q?hi?=\<close> the subject that goes out is
  \<open>System Alert: hi\<close>, and for a message of two lines the assignment raises, outside the
  \<open>try\<close>, and no email goes out at all.
\<close>

theorem sent_subject_is_reparsed:
  "subject_of encoded_word_message = ''System Alert: =?utf-8?q?hi?=''
   \<and> send_email_to_all demo_config email_package encoded_word_message one_recipient accepting =
     (Inr (),
      [Connect ''smtp.gmail.com'' 465, Login ''alerts@example.com'' ''secret'',
       SendMessage
         \<lparr>msg_subject = ''System Alert: hi'',
          msg_from = ''alerts@example.com'', msg_to = ''a@b.co'',
          msg_content = ''System Alert Notification:'' @ [LF, LF] @ ''=?utf-8?q?hi?=''\<rparr>,
       Quit])
   \<and> send_email_to_all demo_config email_package two_line_message one_recipient accepting =
     (Inl (ValueError ''Header values may not contain linefeed or carriage return characters''),
      [])
   \<and> trigger_email demo_config email_package two_line_message one_recipient accepting =
     ([(''Failed to send email: Header values may not contain linefeed or carriage return characters'',
        ''error'')], [])"
proof -
  have g: "get_recipients one_recipient = [''a@b.co'']" by code_simp
  have su: "subject_of encoded_word_message = ''System Alert: =?utf-8?q?hi?=''" by code_simp
  have h1: "store_header email_package ''Subject'' (subject_of encoded_word_message) =
      Inr ''System Alert: hi''"
    by code_simp
  have h2: "store_header email_package ''From'' (SENDER_EMAIL demo_config) =
      Inr ''alerts@example.com''"
    by code_simp
  have h3: "store_header email_package ''To'' (join '', '' (get_recipients one_recipient)) =
      Inr ''a@b.co''"
    by code_simp
  have cfg: "SENDER_EMAIL demo_config = ''alerts@example.com''"
    "SENDER_PASSWORD demo_config = ''secret''"
    by (simp_all add: demo_config_def)
  have e: "send_email_to_all demo_config email_package encoded_word_message one_recipient
      accepting =
     (Inr (),
      [Connect ''smtp.gmail.com'' 465, Login ''alerts@example.com'' ''secret'',
       SendMessage
         \<lparr>msg_subject = ''System Alert: hi'',
          msg_from = ''alerts@example.com'', msg_to = ''a@b.co'',
          msg_content = ''System Alert Notification:'' @ [LF, LF] @ ''=?utf-8?q?hi?=''\<rparr>,
       Quit])"
    using send_with_stored_headers[OF _ h1 h2 h3] g
    by (simp add: cfg encoded_word_message_def)
  have r: "store_header email_package ''Subject'' (subject_of two_line_message) =
      Inl (ValueError ''Header values may not contain linefeed or carriage return characters'')"
    by code_simp
  have t: "send_email_to_all demo_config email_package two_line_message one_recipient accepting =
     (Inl (ValueError ''Header values may not contain linefeed or carriage return characters''),
      [])"
    using build_message_refused[OF r, of demo_config "[''a@b.co'']"]
    by (simp add: send_email_to_all_def g)
  have s: "strip two_line_message = two_line_message" by code_simp
  have n: "two_line_message \<noteq> []" "length two_line_message = 21"
    by (simp_all add: two_line_message_def)
  have tr: "trigger_email demo_config email_package two_line_message one_recipient accepting =
     ([(''Failed to send email: Header values may not contain linefeed or carriage return characters'',
        ''error'')], [])"
    using n by (simp add: trigger_email_def s g t)
  show ?thesis using su e t tr by simp
qed

text \<open>
  C6. With no recipient on record, sending fails with the "no recipients" error and nothing
  happens on the network: no connection, no login, no message.
\<close>

theorem no_recipients_no_session:
  "get_recipients f = [] \<Longrightarrow>
   send_email_to_all cfg lib message f srv =
     (Inl (ValueError ''No recipients configured. Please add recipients first.''), [])
   \<and> snd (trigger_email cfg lib raw f srv) = []
   \<and> (strip raw = [] \<or> 5000 < length (strip raw) \<or>
      fst (trigger_email cfg lib raw f srv) =
        [(''Error: No recipients configured. Please add recipients first.'', ''error'')])"
  by (simp add: send_email_to_all_def trigger_email_def Let_def)

theorem no_recipients_no_session_witness:
  "get_recipients no_file = []
   \<and> send_email_to_all demo_config email_package message30 no_file accepting =
     (Inl (ValueError ''No recipients configured. Please add recipients first.''), [])
   \<and> trigger_email demo_config email_package message30 no_file accepting =
     ([(''Error: No recipients configured. Please add recipients first.'', ''error'')], [])"
proof -
  have g: "get_recipients no_file = []" by (simp add: get_recipients_def no_file_def)
  have s: "strip message30 = message30" by code_simp
  have l: "length message30 = 30" by (simp add: message30_def)
  have n: "message30 \<noteq> []" by (simp add: message30_def)
  show ?thesis
    using no_recipients_no_session[OF g, where cfg = demo_config and lib = email_package
        and message = message30 and srv = accepting and raw = message30] g s l n
    by (auto simp: prod_eq_iff)
qed

text \<open>
  C7, as the code has it. A message that is empty after trimming, or longer than 5000
  characters after trimming, is refused with an error and nothing happens on the network.
\<close>

theorem invalid_message_no_session:
  "strip raw = [] \<or> 5000 < length (strip raw) \<Longrightarrow>
   trigger_email cfg lib raw f srv =
     ([(if strip raw = [] then ''Error: Message cannot be empty.''
        else ''Error: Message is too long (max 5000 characters).'', ''error'')], [])"
  by (auto simp: trigger_email_def Let_def)

theorem invalid_message_no_session_witness:
  "trigger_email demo_config email_package [] one_recipient accepting =
     ([(''Error: Message cannot be empty.'', ''error'')], [])
   \<and> trigger_email demo_config email_package '' '' one_recipient accepting =
     ([(''Error: Message cannot be empty.'', ''error'')], [])
   \<and> trigger_email demo_config email_package (replicate 5001 CHR ''a'') one_recipient accepting =
     ([(''Error: Message is too long (max 5000 characters).'', ''error'')], [])"
proof -
  have a: "\<not> isspace CHR ''a''" by code_simp
  have s0: "strip [] = []" "strip '' '' = []" by code_simp+
  have s1: "strip (replicate 5001 CHR ''a'') = replicate 5001 CHR ''a''"
    using a by (intro strip_clean) simp
  have n: "replicate 5001 CHR ''a'' \<noteq> []" by (simp add: replicate_empty)
  show ?thesis
    using invalid_message_no_session[of "[]" demo_config email_package one_recipient accepting]
      invalid_message_no_session[of "'' ''" demo_config email_package one_recipient accepting]
      invalid_message_no_session[of "replicate 5001 CHR ''a''" demo_config email_package
        one_recipient accepting]
      s0 s1 n
    by simp
qed

text \<open>
  C7 as stated does not hold for the length of the submitted message: a message of 5001
  characters whose last character is a space is trimmed to 5000 and sent.
\<close>

theorem padded_long_message_is_sent:
  "length (replicate 5000 CHR ''a'' @ '' '') = 5001
   \<and> trigger_email demo_config email_package (replicate 5000 CHR ''a'' @ '' '') one_recipient
       accepting =
     ([(''Alert sent successfully to 1 recipient(s)!'', ''success'')],
      [Connect ''smtp.gmail.com'' 465, Login ''alerts@example.com'' ''secret'',
       SendMessage
         \<lparr>msg_subject = ''System Alert: '' @ replicate 50 CHR ''a'' @ ''...'',
          msg_from = ''alerts@example.com'', msg_to = ''a@b.co'',
          msg_content = ''System Alert Notification:'' @ [LF, LF] @ replicate 5000 CHR ''a''\<rparr>,
       Quit])"
proof -
  have a: "\<not> isspace CHR ''a''" "isspace CHR '' ''" by code_simp+
  have s: "strip (replicate 5000 CHR ''a'' @ '' '') = replicate 5000 CHR ''a''"
    using a by (intro strip_clean_space) simp_all
  have g: "get_recipients one_recipient = [''a@b.co'']" by code_simp
  have n: "str_nat (Suc 0) = ''1''" by code_simp
  have su: "subject_of (replicate 5000 CHR ''a'') =
      ''System Alert: '' @ replicate 50 CHR ''a'' @ ''...''"
    by (simp add: subject_of_def)
  have h0: "store_header email_package ''Subject''
      (''System Alert: '' @ replicate 50 CHR ''a'' @ ''...'') =
      Inr (''System Alert: '' @ replicate 50 CHR ''a'' @ ''...'')"
    by code_simp
  have h1: "store_header email_package ''Subject'' (subject_of (replicate 5000 CHR ''a'')) =
      Inr (''System Alert: '' @ replicate 50 CHR ''a'' @ ''...'')"
    by (simp only: su h0)
  have h2: "store_header email_package ''From'' (SENDER_EMAIL demo_config) =
      Inr ''alerts@example.com''"
    by code_simp
  have h3: "store_header email_package ''To'' (join '', '' (get_recipients one_recipient)) =
      Inr ''a@b.co''"
    by code_simp
  have cfg: "SENDER_EMAIL demo_config = ''alerts@example.com''"
    "SENDER_PASSWORD demo_config = ''secret''"
    by (simp_all add: demo_config_def)
  have se: "send_email_to_all demo_config email_package (replicate 5000 CHR ''a'') one_recipient
      accepting =
      (Inr (),
       [Connect ''smtp.gmail.com'' 465, Login ''alerts@example.com'' ''secret'',
        SendMessage
          \<lparr>msg_subject = ''System Alert: '' @ replicate 50 CHR ''a'' @ ''...'',
           msg_from = ''alerts@example.com'', msg_to = ''a@b.co'',
           msg_content = ''System Alert Notification:'' @ [LF, LF] @ replicate 5000 CHR ''a''\<rparr>,
        Quit])"
    using send_with_stored_headers[OF _ h1 h2 h3] g by (simp add: cfg)
  show ?thesis
    by (simp add: trigger_email_def s g se n)
qed

text \<open>
  C8. A request that only removes (no address to add) and names the address \<open>r\<close>, trimmed
  and lowercased: the list is filtered by comparing lowercased entries with \<open>r\<close>; the
  \<open>changed\<close> flag is set exactly when the list got shorter, which is exactly when \<open>r\<close>
  was there up to case. When it was not, the handler reports "not found" and leaves the
  file as it was; when it was, the handler reports the removal and saves the filtered list.
\<close>

theorem remove_changed_iff_found:
  assumes "strip new_raw = []" and "r = lower (strip remove_raw)" and "r \<noteq> []"
  shows "remove_step r (cur, fl, False) =
           (filter (\<lambda>e. lower e \<noteq> r) cur,
            fl @ [if r \<in> set (map lower cur)
                  then (''Removed '' @ r @ '' from the recipient list.'', ''success'')
                  else (r @ '' was not found in the recipient list.'', ''error'')],
            length (filter (\<lambda>e. lower e \<noteq> r) cur) < length cur)
       \<and> (length (filter (\<lambda>e. lower e \<noteq> r) cur) < length cur \<longleftrightarrow> r \<in> set (map lower cur))
       \<and> (r \<notin> set (map lower (get_recipients f)) \<longrightarrow>
            update_clients new_raw remove_raw f =
              ([(r @ '' was not found in the recipient list.'', ''error'')], f))
       \<and> (r \<in> set (map lower (get_recipients f)) \<longrightarrow>
            update_clients new_raw remove_raw f =
              (if writable f
               then ([(''Removed '' @ r @ '' from the recipient list.'', ''success'')],
                     f\<lparr>present := True,
                       content := join [LF] (unique_emails
                         (filter (\<lambda>e. lower e \<noteq> r) (get_recipients f)))\<rparr>)
               else ([(''Removed '' @ r @ '' from the recipient list.'', ''success''),
                      (''Error saving recipient list. Please try again.'', ''error'')], f)))"
proof -
  have n: "lower (strip new_raw) = []" using assms(1) by (simp add: lower_def)
  have u: "update_clients new_raw remove_raw f =
      save_step (remove_step r (get_recipients f, [], False)) f"
    using assms(2) by (simp add: update_clients_def Let_def n add_step_empty)
  show ?thesis
    using assms(3) by (simp add: u remove_step_eq save_step_eq removed_iff_found)
qed

theorem remove_changed_iff_found_witness:
  "update_clients [] ''zz@X.COM'' hand_edited =
     ([(''zz@x.com was not found in the recipient list.'', ''error'')], hand_edited)
   \<and> update_clients [] '' A@X.COM'' hand_edited =
     ([(''Removed a@x.com from the recipient list.'', ''success'')],
      hand_edited\<lparr>content := ''b@x.com''\<rparr>)"
proof -
  have n: "strip [] = []" by code_simp
  have z: "''zz@x.com'' = lower (strip ''zz@X.COM'')" "''zz@x.com'' \<noteq> []" by code_simp+
  have a: "''a@x.com'' = lower (strip '' A@X.COM'')" "''a@x.com'' \<noteq> []" by code_simp+
  have zn: "''zz@x.com'' \<notin> set (map lower (get_recipients hand_edited))" by code_simp
  have am: "''a@x.com'' \<in> set (map lower (get_recipients hand_edited))" by code_simp
  have c: "join [LF] (unique_emails (filter (\<lambda>e. lower e \<noteq> ''a@x.com'')
      (get_recipients hand_edited))) = ''b@x.com''" by code_simp
  have w: "writable hand_edited" by (simp add: hand_edited_def)
  have p: "hand_edited\<lparr>present := True, content := ''b@x.com''\<rparr> =
      hand_edited\<lparr>content := ''b@x.com''\<rparr>" by (simp add: hand_edited_def)
  show ?thesis
    using remove_changed_iff_found[OF n z, where f = hand_edited]
      remove_changed_iff_found[OF n a, where f = hand_edited] zn am c w p
    by simp
qed

text \<open>
  C9. A request that only adds (no address to remove), with \<open>a\<close> the submitted address
  trimmed and lowercased: when \<open>a\<close> fails \<open>validate_email\<close>, or is in the list up to case,
  the handler reports it and the file stays as it was. After a first add that succeeded
  on a file that can be read and written, adding the same address again, in any case and
  padding, reports "already in the recipient list" and leaves the file as it was.
\<close>

theorem add_rejects_invalid_and_present:
  assumes "strip remove_raw = []" and "a = lower (strip new_raw)" and "a \<noteq> []"
  shows "(\<not> validate_email a \<longrightarrow>
            update_clients new_raw remove_raw f = ([(''Invalid email format: '' @ a, ''error'')], f))
       \<and> (validate_email a \<and> a \<in> set (map lower (get_recipients f)) \<longrightarrow>
            update_clients new_raw remove_raw f =
              ([(a @ '' is already in the recipient list.'', ''error'')], f))
       \<and> (validate_email a \<and> a \<notin> set (map lower (get_recipients f)) \<and>
          readable f \<and> writable f \<and> lower (strip again_raw) = a \<longrightarrow>
            (let f1 = f\<lparr>present := True,
                         content := join [LF] (unique_emails (get_recipients f @ [a]))\<rparr>
             in update_clients new_raw remove_raw f =
                  ([(''Added '' @ a @ '' to the recipient list.'', ''success'')], f1)
                \<and> a \<in> set (get_recipients f1)
                \<and> update_clients again_raw remove_raw f1 =
                  ([(a @ '' is already in the recipient list.'', ''error'')], f1)))"
proof -
  have r: "lower (strip remove_raw) = []" using assms(1) by (simp add: lower_def)
  have la: "lower a = a" using assms(2) by (simp add: lower_idem)
  have u: "update_clients raw remove_raw g =
      save_step (add_step (lower (strip raw)) (get_recipients g, [], False)) g" for raw g
    by (simp add: update_clients_def Let_def r remove_step_empty)
  have first: "update_clients new_raw remove_raw f =
      save_step (add_step a (get_recipients f, [], False)) f"
    using assms(2) by (simp add: u)
  have c1: "\<not> validate_email a \<longrightarrow>
      update_clients new_raw remove_raw f = ([(''Invalid email format: '' @ a, ''error'')], f)"
    using assms(3) by (simp add: first add_step_eq save_step_eq)
  have c2: "validate_email a \<and> a \<in> set (map lower (get_recipients f)) \<longrightarrow>
      update_clients new_raw remove_raw f =
        ([(a @ '' is already in the recipient list.'', ''error'')], f)"
    using assms(3) by (simp add: first add_step_eq save_step_eq la)
  have c3: "let f1 = f\<lparr>present := True,
                         content := join [LF] (unique_emails (get_recipients f @ [a]))\<rparr>
             in update_clients new_raw remove_raw f =
                  ([(''Added '' @ a @ '' to the recipient list.'', ''success'')], f1)
                \<and> a \<in> set (get_recipients f1)
                \<and> update_clients again_raw remove_raw f1 =
                  ([(a @ '' is already in the recipient list.'', ''error'')], f1)"
    if v: "validate_email a" and nin: "a \<notin> set (map lower (get_recipients f))"
      and rd: "readable f" and wr: "writable f" and ag: "lower (strip again_raw) = a"
  proof -
    define f1 where "f1 = f\<lparr>present := True,
                         content := join [LF] (unique_emails (get_recipients f @ [a]))\<rparr>"
    have ca: "clean a" using v assms(2,3) lower_strip_clean by simp
    have wf: "wellformed (get_recipients f @ [a])"
      using wellformed_get_recipients[of f] ca v by (simp add: wellformed_def)
    have s: "snd (save_recipients (get_recipients f @ [a]) f) = f1"
      using wr by (simp add: save_writable f1_def)
    have g: "get_recipients f1 = unique_emails (get_recipients f @ [a])"
      using get_recipients_saved[OF wf wr] rd by (simp add: s)
    have m: "a \<in> set (get_recipients f1)" by (simp add: g unique_emails_set)
    then have m': "a \<in> set (map lower (get_recipients f1))"
      using la by (metis image_eqI set_map)
    have e1: "update_clients new_raw remove_raw f =
        ([(''Added '' @ a @ '' to the recipient list.'', ''success'')], f1)"
      using assms(3) v nin wr by (simp add: first add_step_eq save_step_eq la f1_def)
    have e2: "update_clients again_raw remove_raw f1 =
        ([(a @ '' is already in the recipient list.'', ''error'')], f1)"
      using assms(3) v m' by (simp add: u ag add_step_eq save_step_eq la)
    show ?thesis using e1 m e2 by (simp add: Let_def f1_def)
  qed
  show ?thesis using c1 c2 c3 by blast
qed

theorem add_rejects_invalid_and_present_witness:
  "update_clients ''bad address'' [] hand_edited =
     ([(''Invalid email format: bad address'', ''error'')], hand_edited)
   \<and> update_clients '' A@X.com '' [] hand_edited =
     ([(''a@x.com is already in the recipient list.'', ''error'')], hand_edited)
   \<and> update_clients ''  New@Y.org '' [] hand_edited =
     ([(''Added new@y.org to the recipient list.'', ''success'')],
      hand_edited\<lparr>content :=
        ''A@x.com'' @ [LF] @ ''a@x.com'' @ [LF] @ ''b@x.com'' @ [LF] @ ''new@y.org''\<rparr>)
   \<and> update_clients ''NEW@y.ORG'' []
       (hand_edited\<lparr>content :=
        ''A@x.com'' @ [LF] @ ''a@x.com'' @ [LF] @ ''b@x.com'' @ [LF] @ ''new@y.org''\<rparr>) =
     ([(''new@y.org is already in the recipient list.'', ''error'')],
      hand_edited\<lparr>content :=
        ''A@x.com'' @ [LF] @ ''a@x.com'' @ [LF] @ ''b@x.com'' @ [LF] @ ''new@y.org''\<rparr>)"
proof -
  have n: "strip [] = []" by code_simp
  have b: "''bad address'' = lower (strip ''bad address'')" "''bad address'' \<noteq> []"
    "\<not> validate_email ''bad address''" by code_simp+
  have a: "''a@x.com'' = lower (strip '' A@X.com '')" "''a@x.com'' \<noteq> []"
    "validate_email ''a@x.com''" "''a@x.com'' \<in> set (map lower (get_recipients hand_edited))"
    by code_simp+
  have y: "''new@y.org'' = lower (strip ''  New@Y.org '')" "''new@y.org'' \<noteq> []"
    "validate_email ''new@y.org''" "''new@y.org'' \<notin> set (map lower (get_recipients hand_edited))"
    "lower (strip ''NEW@y.ORG'') = ''new@y.org''"
    by code_simp+
  have c: "join [LF] (unique_emails (get_recipients hand_edited @ [''new@y.org''])) =
      ''A@x.com'' @ [LF] @ ''a@x.com'' @ [LF] @ ''b@x.com'' @ [LF] @ ''new@y.org''"
    by code_simp
  have h: "readable hand_edited" "writable hand_edited" by (simp_all add: hand_edited_def)
  have p: "hand_edited\<lparr>present := True, content := t\<rparr> = hand_edited\<lparr>content := t\<rparr>" for t
    by (simp add: hand_edited_def)
  show ?thesis
    using add_rejects_invalid_and_present[OF n b(1,2), where f = hand_edited]
      add_rejects_invalid_and_present[OF n a(1,2), where f = hand_edited]
      add_rejects_invalid_and_present[OF n y(1,2), where f = hand_edited
        and again_raw = "''NEW@y.ORG''"]
      b(3) a(3,4) y(3,4,5) h
    by (simp add: c p Let_def)
qed

text \<open>
  C10. Whatever a request to \<open>update_clients\<close> carries, every address on record after it
  was on record before it, or is the submitted address trimmed and lowercased, which has
  no capital letter. So an entry with a capital letter was in the file before.
\<close>

theorem added_address_is_lowercase:
  "e \<in> set (get_recipients (snd (update_clients new_raw remove_raw f))) \<Longrightarrow>
   e \<in> set (get_recipients f) \<or>
   (e = lower (strip new_raw) \<and> lower e = e \<and> (\<forall>c\<in>set e. \<not> in_range CHR ''A'' CHR ''Z'' c))"
proof -
  assume e: "e \<in> set (get_recipients (snd (update_clients new_raw remove_raw f)))"
  define a where "a = lower (strip new_raw)"
  define cur where "cur = get_recipients f"
  define st1 where "st1 = add_step a (cur, [], False)"
  define st2 where "st2 = remove_step (lower (strip remove_raw)) st1"
  have u: "update_clients new_raw remove_raw f = save_step st2 f"
    by (simp add: update_clients_def Let_def st2_def st1_def a_def cur_def)
  have wc: "wellformed cur" by (simp add: cur_def wellformed_get_recipients)
  have l1: "fst st1 = cur \<or> (fst st1 = cur @ [a] \<and> a \<noteq> [] \<and> validate_email a)"
    unfolding st1_def by (rule add_step_list)
  have w1: "wellformed (fst st1)"
  proof -
    from l1 show ?thesis
    proof
      assume "fst st1 = cur"
      then show ?thesis using wc by simp
    next
      assume h: "fst st1 = cur @ [a] \<and> a \<noteq> [] \<and> validate_email a"
      then have "clean a" unfolding a_def by (intro lower_strip_clean) simp_all
      then show ?thesis using h wc by (simp add: wellformed_def)
    qed
  qed
  have s1: "set (fst st1) \<subseteq> set cur \<union> {a}" using l1 by auto
  have s2: "set (fst st2) \<subseteq> set (fst st1)" unfolding st2_def by (rule remove_step_list)
  have w2: "wellformed (fst st2)" using w1 s2 by (rule wellformed_subset)
  obtain xs fl ch where st2: "st2 = (xs, fl, ch)" by (cases st2) auto
  have "set (get_recipients (snd (save_step st2 f))) \<subseteq> set (fst st2) \<union> set (get_recipients f)"
    using save_step_recipients[of xs fl ch f] w2 by (simp add: st2)
  with e u have "e \<in> set (fst st2) \<union> set (get_recipients f)" by auto
  with s1 s2 have "e \<in> set (get_recipients f) \<or> e = a" by (auto simp: cur_def)
  moreover have "lower a = a" by (simp add: a_def lower_idem)
  moreover have "\<forall>c\<in>set a. \<not> in_range CHR ''A'' CHR ''Z'' c"
    by (simp add: a_def lower_no_capital)
  ultimately show ?thesis by (auto simp: a_def)
qed

theorem added_address_is_lowercase_witness:
  "''new@y.org'' \<in> set (get_recipients (snd (update_clients ''  New@Y.org '' [] hand_edited)))
   \<and> ''new@y.org'' \<notin> set (get_recipients hand_edited)
   \<and> ''new@y.org'' = lower (strip ''  New@Y.org '')
   \<and> lower ''new@y.org'' = ''new@y.org''"
proof -
  have m: "''new@y.org'' \<in> set (get_recipients (snd (update_clients ''  New@Y.org '' [] hand_edited)))"
    by code_simp
  have n: "''new@y.org'' \<notin> set (get_recipients hand_edited)" by code_simp
  from added_address_is_lowercase[OF m] n
  have "''new@y.org'' = lower (strip ''  New@Y.org '') \<and> lower ''new@y.org'' = ''new@y.org''"
    by blast
  with m n show ?thesis by blast
qed

end
